theory Spec2Isabelle
  imports Main "HOL-Library.Word"
begin

section \<open>openDCM cluster graph: identifiers\<close>

text \<open>
  The embedding follows \<^verbatim>\<open>opendcm/core/clustergraph.hpp\<close>.

  \<^verbatim>\<open>typedef int universalID;\<close> The identifier is a C++ \<^verbatim>\<open>int\<close>: 32 bits, two's
  complement. It is modelled as a 32-bit word, read as a signed number with \<open>sint\<close> and
  compared with the signed order \<open><s\<close>. Incrementing the largest \<^verbatim>\<open>int\<close> is undefined
  in C++; the model takes the value the two's complement machine produces (the word
  wraps to the smallest \<^verbatim>\<open>int\<close>). Every theorem below that needs the increment to be
  the mathematical one carries the bound that keeps it away from that case.
\<close>

type_synonym universalID = "32 word"

text \<open>
  \<^verbatim>\<open>struct IDgen { universalID* counter; ... }\<close>: the generator owns one heap cell holding
  the counter. The record holds the content of that cell; an operation that writes the
  cell returns the generator with the new content.
\<close>

record IDgen =
  counter :: universalID

text \<open>\<^verbatim>\<open>IDgen() { counter = new universalID(10); }\<close>\<close>

definition IDgen_default :: IDgen where
  "IDgen_default = \<lparr>counter = 10\<rparr>"

text \<open>\<^verbatim>\<open>IDgen(universalID id) { counter = new universalID(id); }\<close>\<close>

definition IDgen_from :: "universalID \<Rightarrow> IDgen" where
  "IDgen_from i = \<lparr>counter = i\<rparr>"

text \<open>\<^verbatim>\<open>universalID generate() { return ++ (*counter); }\<close>: pre-increment, the new value is
  stored and returned.\<close>

definition generate :: "IDgen \<Rightarrow> universalID \<times> IDgen" where
  "generate g = (counter g + 1, g\<lparr>counter := counter g + 1\<rparr>)"

text \<open>\<^verbatim>\<open>universalID count() { return (*counter); }\<close>\<close>

definition count :: "IDgen \<Rightarrow> universalID" where
  "count g = counter g"

text \<open>\<^verbatim>\<open>void setCount(universalID id) { *counter = id; }\<close>\<close>

definition setCount :: "IDgen \<Rightarrow> universalID \<Rightarrow> IDgen" where
  "setCount g i = g\<lparr>counter := i\<rparr>"

text \<open>
  \<open>n\<close> calls of \<open>generate()\<close> in a row on one generator, with no \<open>setCount\<close> between
  them: the identifiers they return, in the order of the calls, and the generator
  afterwards. (\<open>count()\<close> writes nothing, so calls of it in between change neither.)
\<close>

fun generate_n :: "nat \<Rightarrow> IDgen \<Rightarrow> universalID list \<times> IDgen" where
  "generate_n 0 g = ([], g)"
| "generate_n (Suc n) g =
     (case generate g of (i, g') \<Rightarrow>
        (case generate_n n g' of (is, g'') \<Rightarrow> (i # is, g'')))"

text \<open>
  \<^verbatim>\<open>struct GlobalEdge { GlobalVertex source; GlobalVertex target; universalID ID; ... }\<close>
  with \<^verbatim>\<open>typedef details::universalID GlobalVertex;\<close>
\<close>

type_synonym GlobalVertex = universalID

record GlobalEdge =
  source :: GlobalVertex
  target :: GlobalVertex
  ID :: universalID

text \<open>\<^verbatim>\<open>bool operator== (const GlobalEdge& second) const { return ID == second.ID; }\<close>\<close>

definition GlobalEdge_eq :: "GlobalEdge \<Rightarrow> GlobalEdge \<Rightarrow> bool" where
  "GlobalEdge_eq first second = (ID first = ID second)"

text \<open>\<^verbatim>\<open>bool operator!= (const GlobalEdge& second) const { return ID != second.ID; }\<close>\<close>

definition GlobalEdge_neq :: "GlobalEdge \<Rightarrow> GlobalEdge \<Rightarrow> bool" where
  "GlobalEdge_neq first second = (ID first \<noteq> ID second)"

text \<open>\<^verbatim>\<open>bool valid() { return ID > 9; }\<close>: a comparison of \<^verbatim>\<open>int\<close>s, the signed order.\<close>

definition valid :: "GlobalEdge \<Rightarrow> bool" where
  "valid e = (9 <s ID e)"


section \<open>Cluster graph: data\<close>

text \<open>
  The data of a cluster follows the type definitions of the header. Only the header is
  among the sources: the bodies of the member functions of \<^verbatim>\<open>ClusterGraph\<close> are in
  \<^verbatim>\<open>imp/clustergraph_imp.hpp\<close>, and the local graph storage is Boost's
  \<^verbatim>\<open>adjacency_list\<close>. The operations of the next section are therefore modelled from
  the specification, each one marked so.

  \<^verbatim>\<open>typedef details::list_traits::vertex_descriptor LocalVertex;\<close> and
  \<^verbatim>\<open>typedef details::list_traits::edge_descriptor LocalEdge;\<close> With list storage a
  descriptor is the address of the stored node. Addresses are natural numbers here, and
  0 is the null descriptor a default-constructed \<^verbatim>\<open>LocalVertex()\<close> holds.
\<close>

type_synonym LocalVertex = nat
type_synonym LocalEdge = nat

definition null_descriptor :: nat where
  "null_descriptor = 0"

text \<open>
  Modelled from the spec: the property and object sequences (\<^verbatim>\<open>details::pts\<close> of
  \<^verbatim>\<open>property.hpp\<close>, \<^verbatim>\<open>details::sps\<close>) depend on type lists given from outside. Spec
  4.3: properties are ``mandatory slots, default-constructed, one per declared property
  type'' and reading one ``never fails (absent = default)''; objects are ``optional ...
  slots, one per declared object type, default empty''. Spec 9 indexes the declared
  types by small integers. A slot sequence is a map from the slot index to the stored
  value; the empty map is the sequence of default properties, or of empty objects.
\<close>

type_synonym 'a slots = "nat \<rightharpoonup> 'a"

text \<open>\<^verbatim>\<open>typedef fusion::vector < GlobalVertex, pts<vertex_properties>::type,
  sps<objects>::type > vertex_bundle;\<close>\<close>

record ('p, 'o) vertex_bundle =
  v_global :: GlobalVertex
  v_properties :: "'p slots"
  v_objects :: "'o slots"

text \<open>\<^verbatim>\<open>typedef fusion::vector< sps<objects>::type, GlobalEdge > edge_bundle_single;\<close>\<close>

record 'o edge_bundle_single =
  s_objects :: "'o slots"
  s_global :: GlobalEdge

text \<open>\<^verbatim>\<open>typedef fusion::vector< pts<edge_properties>::type,
  std::vector< edge_bundle_single > > edge_bundle;\<close>\<close>

record ('p, 'o) edge_bundle =
  e_properties :: "'p slots"
  e_globals :: "'o edge_bundle_single list"

text \<open>
  A stored edge of the undirected \<^verbatim>\<open>adjacency_list\<close>: its descriptor, the two vertices
  it joins and its bundle.
\<close>

record ('p, 'o) local_edge =
  le_descriptor :: LocalEdge
  le_source :: LocalVertex
  le_target :: LocalVertex
  le_bundle :: "('p, 'o) edge_bundle"

text \<open>
  \<^verbatim>\<open>class ClusterGraph : public boost::adjacency_list<listS, listS, undirectedS,
  vertex_bundle, edge_bundle>, public PropertyOwner<cluster_properties>, ...\<close> with the
  members \<^verbatim>\<open>ClusterMap m_clusters\<close> (\<^verbatim>\<open>std::map<LocalVertex,
  std::shared_ptr<ClusterGraph> >\<close>), \<^verbatim>\<open>m_parent\<close>, \<^verbatim>\<open>m_id\<close> and \<^verbatim>\<open>bool copy_mode\<close>.

  A cluster is the list of its vertices and the list of its edges (both in the order of
  insertion, the order the iterators walk), its subclusters by the vertex that stands
  for each, its cluster properties, of which \<^verbatim>\<open>changed_prop\<close> is kept as a field of its
  own, and the copy mode. The clusters of a tree own their subclusters, so the tree is
  the value itself and \<^verbatim>\<open>m_parent\<close> is the position in it. All clusters of a tree hold a
  pointer to one generator (see the constructors below): the operations take that one
  generator beside the cluster and return it, so a call made through any cluster of the
  tree acts on the same counter.
\<close>

datatype ('p, 'o) ClusterGraph = ClusterGraph
  (vertices: "(LocalVertex \<times> ('p, 'o) vertex_bundle) list")
  (edges: "('p, 'o) local_edge list")
  (m_clusters: "(LocalVertex \<times> ('p, 'o) ClusterGraph) list")
  (properties: "'p slots")
  (changed: bool)
  (copy_mode: bool)

text \<open>
  \<^verbatim>\<open>ClusterGraph() : m_id(new details::IDgen) {};\<close> An empty cluster and a new
  generator, whose counter is 10. The constructor does not initialise \<^verbatim>\<open>copy_mode\<close>;
  the value it happens to hold is the parameter \<open>cm\<close>.
\<close>

definition ClusterGraph_root :: "bool \<Rightarrow> IDgen \<times> ('p, 'o) ClusterGraph" where
  "ClusterGraph_root cm = (IDgen_default, ClusterGraph [] [] [] Map.empty False cm)"

text \<open>
  \<^verbatim>\<open>ClusterGraph(std::shared_ptr<ClusterGraph> g) : m_parent(g), m_id(new details::IDgen)
  { if(g) m_id = g->m_id; };\<close> With a parent, the new cluster takes the parent's
  generator (the argument is the generator of the parent's tree); with an empty pointer
  it keeps the new one.
\<close>

definition ClusterGraph_child :: "IDgen option \<Rightarrow> bool \<Rightarrow> IDgen \<times> ('p, 'o) ClusterGraph" where
  "ClusterGraph_child g cm =
     (case g of
        Some parent_id \<Rightarrow> (parent_id, ClusterGraph [] [] [] Map.empty False cm)
      | None \<Rightarrow> (IDgen_default, ClusterGraph [] [] [] Map.empty False cm))"


section \<open>Cluster graph: operations\<close>

text \<open>
  Modelled from the spec: Boost's \<^verbatim>\<open>add_vertex\<close> on list storage. Spec 4.2: ``storage
  discipline guarantees that adding/removing one entity never invalidates handles to
  other entities''. A new node gets an address no stored node has: one more than the
  largest in use.
\<close>

definition new_descriptor :: "nat list \<Rightarrow> nat" where
  "new_descriptor used = Suc (fold max used 0)"


text \<open>
  Modelled from the spec: Boost's \<^verbatim>\<open>add_edge\<close>, which appends a stored edge with the
  given bundle and returns its descriptor (spec 4.2, ``create vertex/edge'').
\<close>

fun add_edge ::
  "LocalVertex \<Rightarrow> LocalVertex \<Rightarrow> ('p, 'o) edge_bundle \<Rightarrow> ('p, 'o) ClusterGraph
     \<Rightarrow> LocalEdge \<times> ('p, 'o) ClusterGraph" where
  "add_edge a b bundle (ClusterGraph vs es cs ps ch cm) =
     (let e = new_descriptor (map le_descriptor es)
      in (e, ClusterGraph vs
               (es @ [\<lparr>le_descriptor = e, le_source = a, le_target = b, le_bundle = bundle\<rparr>])
               cs ps ch cm))"

text \<open>
  Modelled from the spec: the body of \<^verbatim>\<open>setChanged()\<close> is not among the sources. Spec 3:
  ``A structural mutation sets the owning cluster's "changed" flag unless copy-mode is
  active.''
\<close>

fun setChanged :: "('p, 'o) ClusterGraph \<Rightarrow> ('p, 'o) ClusterGraph" where
  "setChanged (ClusterGraph vs es cs ps ch cm) =
     ClusterGraph vs es cs ps (if cm then ch else True) cm"




text \<open>
  Modelled from the spec: whether a descriptor ``resolve[s] to a valid local vertex''
  (spec 4.6) of the cluster: whether a vertex is stored at it.
\<close>

definition is_vertex :: "('p, 'o) ClusterGraph \<Rightarrow> LocalVertex \<Rightarrow> bool" where
  "is_vertex c v = (v \<in> set (map fst (vertices c)))"

text \<open>
  Modelled from the spec: the body of \<^verbatim>\<open>isCluster(LocalVertex)\<close> is not among the
  sources. Spec 3: ``Every Cluster-map entry corresponds to exactly one local vertex in
  the owning cluster tagged as "is a cluster," and vice versa'': a vertex is a cluster
  when the cluster map has an entry for it.
\<close>

definition isCluster :: "('p, 'o) ClusterGraph \<Rightarrow> LocalVertex \<Rightarrow> bool" where
  "isCluster c v = (v \<in> set (map fst (m_clusters c)))"

text \<open>
  Modelled from the spec: the body of \<^verbatim>\<open>getGlobalVertex(LocalVertex)\<close> is not among the
  sources. It reads the global identifier of the vertex's bundle (spec 3, ``Vertex
  Bundle''); for a descriptor that is no vertex of the cluster the model returns 0, an
  identifier of the reserved range.
\<close>

definition getGlobalVertex :: "('p, 'o) ClusterGraph \<Rightarrow> LocalVertex \<Rightarrow> GlobalVertex" where
  "getGlobalVertex c v = (case map_of (vertices c) v of Some b \<Rightarrow> v_global b | None \<Rightarrow> 0)"

text \<open>
  Modelled from the spec: \<^verbatim>\<open>edge(LocalVertex source, LocalVertex target)\<close>, by the header
  ``the same as boost::edge(source, target, Graph)''; spec 4.2: ``look up an edge
  between two vertices''. The graph is undirected: an edge joins its two vertices in
  either order. The first stored edge that joins them is returned.
\<close>

definition connects :: "('p, 'o) local_edge \<Rightarrow> LocalVertex \<Rightarrow> LocalVertex \<Rightarrow> bool" where
  "connects e a b = (le_source e = a \<and> le_target e = b \<or> le_source e = b \<and> le_target e = a)"

definition edge :: "('p, 'o) ClusterGraph \<Rightarrow> LocalVertex \<Rightarrow> LocalVertex \<Rightarrow> LocalEdge \<times> bool" where
  "edge c a b =
     (case find (\<lambda>e. connects e a b) (edges c) of
        Some e \<Rightarrow> (le_descriptor e, True)
      | None \<Rightarrow> (null_descriptor, False))"

text \<open>
  Modelled from the spec: appending one more global edge to the aggregated list of the
  local edge with descriptor \<open>e\<close> (spec 4.6, ``a new GlobalEdge is appended to its
  aggregated list (parallel-edge aggregation)'').
\<close>

definition push_back_global ::
  "'o edge_bundle_single \<Rightarrow> ('p, 'o) local_edge \<Rightarrow> ('p, 'o) local_edge" where
  "push_back_global s e = e\<lparr>le_bundle := (le_bundle e)\<lparr>e_globals := e_globals (le_bundle e) @ [s]\<rparr>\<rparr>"

fun aggregate_global ::
  "LocalEdge \<Rightarrow> 'o edge_bundle_single \<Rightarrow> ('p, 'o) ClusterGraph \<Rightarrow> ('p, 'o) ClusterGraph" where
  "aggregate_global e s (ClusterGraph vs es cs ps ch cm) =
     ClusterGraph vs (map (\<lambda>x. if le_descriptor x = e then push_back_global s x else x) es)
       cs ps ch cm"

text \<open>
  The global edge a failed \<open>addEdge\<close> returns beside its \<open>false\<close>: a value-initialised
  \<^verbatim>\<open>GlobalEdge()\<close>, which is not \<open>valid()\<close>.
\<close>

definition invalid_GlobalEdge :: GlobalEdge where
  "invalid_GlobalEdge = \<lparr>source = 0, target = 0, ID = 0\<rparr>"

text \<open>
  Modelled from the spec: the body of \<^verbatim>\<open>addEdge(LocalVertex source, LocalVertex
  target)\<close> is not among the sources. Spec 4.6: ``fails if localA == localB or either
  does not resolve to a valid local vertex. If a local edge already connects them, a new
  GlobalEdge is appended to its aggregated list (parallel-edge aggregation); otherwise a
  new local edge is created holding one fresh GlobalEdge. Returns (local edge, new
  global edge, success).'' The header adds: ``The LocalVertex parameters should not
  represent a cluster which would result in the functions failure.'' Spec 7: ``a false
  result means the call had no effect and prior state is unchanged''. The new global
  edge joins the global identifiers of the two vertices and takes its \<open>ID\<close> from the
  generator (spec 3, ``GlobalEdge'').
\<close>

definition addEdge ::
  "IDgen \<Rightarrow> ('p, 'o) ClusterGraph \<Rightarrow> LocalVertex \<Rightarrow> LocalVertex
     \<Rightarrow> (LocalEdge \<times> GlobalEdge \<times> bool) \<times> IDgen \<times> ('p, 'o) ClusterGraph" where
  "addEdge m_id c a b =
     (if a = b \<or> \<not> is_vertex c a \<or> \<not> is_vertex c b \<or> isCluster c a \<or> isCluster c b
      then ((null_descriptor, invalid_GlobalEdge, False), m_id, c)
      else
        (case generate m_id of (i, m_id') \<Rightarrow>
           (let global = \<lparr>source = getGlobalVertex c a, target = getGlobalVertex c b, ID = i\<rparr>;
                single = \<lparr>s_objects = Map.empty, s_global = global\<rparr>
            in (case edge c a b of
                  (e, True) \<Rightarrow> ((e, global, True), m_id', setChanged (aggregate_global e single c))
                | (e, False) \<Rightarrow>
                    (case add_edge a b \<lparr>e_properties = Map.empty, e_globals = [single]\<rparr> c of
                       (e', c') \<Rightarrow> ((e', global, True), m_id', setChanged c'))))))"

text \<open>
  Modelled from the spec: the body of \<^verbatim>\<open>getGlobalEdgeCount(LocalEdge)\<close> is not among the
  sources. Header: ``To get the number of all global edges in this local one you can use
  this function''; for a descriptor that is no edge of the cluster the model returns 0.
\<close>

definition getGlobalEdgeCount :: "('p, 'o) ClusterGraph \<Rightarrow> LocalEdge \<Rightarrow> int" where
  "getGlobalEdgeCount c e =
     (case find (\<lambda>x. le_descriptor x = e) (edges c) of
        Some x \<Rightarrow> int (length (e_globals (le_bundle x)))
      | None \<Rightarrow> 0)"

text \<open>
  Modelled from the spec: the search of \<^verbatim>\<open>getContainingEdgeGraph(GlobalEdge)\<close>, whose
  body is not among the sources. Spec 4.4: ``Edge translation is structurally identical
  but must search the aggregated global-edge list of every local edge, since one local
  edge can hold several global edges.'' Global edges are compared with \<open>operator==\<close>.
  \<open>holds_global\<close>: the local edge holds the global edge; \<open>holds_in_tree\<close>: some local
  edge of the cluster or of its subclusters does.
\<close>

definition holds_global :: "('p, 'o) local_edge \<Rightarrow> GlobalEdge \<Rightarrow> bool" where
  "holds_global e g = list_ex (\<lambda>s. GlobalEdge_eq (s_global s) g) (e_globals (le_bundle e))"

fun holds_in_tree :: "('p, 'o) ClusterGraph \<Rightarrow> GlobalEdge \<Rightarrow> bool" where
  "holds_in_tree (ClusterGraph vs es cs ps ch cm) g =
     (list_ex (\<lambda>e. holds_global e g) es \<or> list_ex (\<lambda>(cv, sub). holds_in_tree sub g) cs)"

text \<open>
  Modelled from the spec: the body of \<^verbatim>\<open>removeEdge(GlobalEdge)\<close> is not among the
  sources. Spec 4.6: ``locates the owning local edge anywhere in the subtree, drops only
  that aggregated entry; if the aggregated list becomes empty the local edge itself is
  removed, otherwise it is left intact with its remaining entries.''

  \<open>remove_first\<close> drops the first entry of a list that satisfies \<open>P\<close>; \<open>drop_global\<close>
  drops the entry for \<open>g\<close> from the first edge of a list of local edges that holds \<open>g\<close>,
  and the edge with it when no entry is left; \<open>remove_global_edge\<close> does so in the
  owning cluster, found in the order of the search: the cluster's own edges first, then
  its subclusters one after the other. \<open>removeEdge\<close> marks the cluster it was called on
  as changed; when no local edge of the subtree holds \<open>g\<close> it has no effect.
\<close>

fun remove_first :: "('a \<Rightarrow> bool) \<Rightarrow> 'a list \<Rightarrow> 'a list" where
  "remove_first P [] = []"
| "remove_first P (x # xs) = (if P x then xs else x # remove_first P xs)"

definition set_globals ::
  "'o edge_bundle_single list \<Rightarrow> ('p, 'o) local_edge \<Rightarrow> ('p, 'o) local_edge" where
  "set_globals ss e = e\<lparr>le_bundle := (le_bundle e)\<lparr>e_globals := ss\<rparr>\<rparr>"

fun drop_global :: "GlobalEdge \<Rightarrow> ('p, 'o) local_edge list \<Rightarrow> ('p, 'o) local_edge list" where
  "drop_global g [] = []"
| "drop_global g (e # es) =
     (if holds_global e g then
        (let rest = remove_first (\<lambda>s. GlobalEdge_eq (s_global s) g) (e_globals (le_bundle e))
         in if rest = [] then es else set_globals rest e # es)
      else e # drop_global g es)"

function remove_global_edge :: "('p, 'o) ClusterGraph \<Rightarrow> GlobalEdge \<Rightarrow> ('p, 'o) ClusterGraph"
  and remove_in_clusters ::
    "(LocalVertex \<times> ('p, 'o) ClusterGraph) list \<Rightarrow> GlobalEdge
       \<Rightarrow> (LocalVertex \<times> ('p, 'o) ClusterGraph) list"
where
  "remove_global_edge (ClusterGraph vs es cs ps ch cm) g =
     (if list_ex (\<lambda>e. holds_global e g) es then ClusterGraph vs (drop_global g es) cs ps ch cm
      else ClusterGraph vs es (remove_in_clusters cs g) ps ch cm)"
| "remove_in_clusters [] g = []"
| "remove_in_clusters ((cv, sub) # cs) g =
     (if holds_in_tree sub g then (cv, remove_global_edge sub g) # cs
      else (cv, sub) # remove_in_clusters cs g)"
  by pat_completeness auto
termination
  by (relation "measure (\<lambda>x. case x of Inl (c, g) \<Rightarrow> size c
                                   | Inr (cs, g) \<Rightarrow> size_list (size_prod (\<lambda>_. 0) size) cs)") auto

definition removeEdge :: "('p, 'o) ClusterGraph \<Rightarrow> GlobalEdge \<Rightarrow> ('p, 'o) ClusterGraph" where
  "removeEdge c g = (if holds_in_tree c g then setChanged (remove_global_edge c g) else c)"


section \<open>Cluster graph: observations\<close>

text \<open>
  What a cluster holds with everything below it, in the order of the search: its own
  entries first, then those of each subcluster. An entry is tagged with the path to the
  cluster that stores it: the cluster vertices to follow from the cluster looked at.
\<close>

definition below :: "LocalVertex \<Rightarrow> (LocalVertex list \<times> 'a) list \<Rightarrow> (LocalVertex list \<times> 'a) list" where
  "below cv xs = map (\<lambda>(p, x). (cv # p, x)) xs"

fun all_edges :: "('p, 'o) ClusterGraph \<Rightarrow> (LocalVertex list \<times> ('p, 'o) local_edge) list" where
  "all_edges (ClusterGraph vs es cs ps ch cm) =
     map (Pair []) es @ concat (map (\<lambda>(cv, sub). below cv (all_edges sub)) cs)"

fun all_vertices ::
  "('p, 'o) ClusterGraph \<Rightarrow> (LocalVertex list \<times> LocalVertex \<times> ('p, 'o) vertex_bundle) list" where
  "all_vertices (ClusterGraph vs es cs ps ch cm) =
     map (Pair []) vs @ concat (map (\<lambda>(cv, sub). below cv (all_vertices sub)) cs)"

definition edges_in ::
  "(LocalVertex \<times> ('p, 'o) ClusterGraph) list \<Rightarrow> (LocalVertex list \<times> ('p, 'o) local_edge) list" where
  "edges_in cs = concat (map (\<lambda>(cv, sub). below cv (all_edges sub)) cs)"

definition vertices_in ::
  "(LocalVertex \<times> ('p, 'o) ClusterGraph) list
     \<Rightarrow> (LocalVertex list \<times> LocalVertex \<times> ('p, 'o) vertex_bundle) list" where
  "vertices_in cs = concat (map (\<lambda>(cv, sub). below cv (all_vertices sub)) cs)"

text \<open>
  \<open>one_entry_dropped g before after\<close>: the list \<open>after\<close> of local edges is the list
  \<open>before\<close> with one change. In the first edge that holds \<open>g\<close> the first entry equal to
  \<open>g\<close> is gone and the other entries are kept in their order; when that leaves the edge
  without an entry, the edge is gone too. All other edges are the same.
\<close>

definition one_entry_dropped ::
  "GlobalEdge \<Rightarrow> ('t \<times> ('p, 'o) local_edge) list \<Rightarrow> ('t \<times> ('p, 'o) local_edge) list \<Rightarrow> bool" where
  "one_entry_dropped g before after =
     (\<exists>pre p e post ys s zs.
        before = pre @ (p, e) # post
      \<and> \<not> list_ex (\<lambda>(p, e). holds_global e g) pre
      \<and> e_globals (le_bundle e) = ys @ s # zs
      \<and> GlobalEdge_eq (s_global s) g
      \<and> \<not> list_ex (\<lambda>s. GlobalEdge_eq (s_global s) g) ys
      \<and> after = (if ys @ zs = [] then pre @ post else pre @ (p, set_globals (ys @ zs) e) # post))"

subsection \<open>Example states\<close>

text \<open>
  Vertices, global edges and local edges with default properties and empty objects, and
  clusters built from them: the empty root, a cluster of two vertices, the same cluster
  once its vertices are joined, and a root with a subcluster at its vertex 3.
\<close>

definition plain_vertex :: "GlobalVertex \<Rightarrow> (nat, nat) vertex_bundle" where
  "plain_vertex i = \<lparr>v_global = i, v_properties = Map.empty, v_objects = Map.empty\<rparr>"

definition plain_single :: "GlobalVertex \<Rightarrow> GlobalVertex \<Rightarrow> universalID \<Rightarrow> nat edge_bundle_single" where
  "plain_single s t i = \<lparr>s_objects = Map.empty, s_global = \<lparr>source = s, target = t, ID = i\<rparr>\<rparr>"

definition plain_edge ::
  "LocalEdge \<Rightarrow> LocalVertex \<Rightarrow> LocalVertex \<Rightarrow> nat edge_bundle_single list \<Rightarrow> (nat, nat) local_edge" where
  "plain_edge e a b ss =
     \<lparr>le_descriptor = e, le_source = a, le_target = b,
      le_bundle = \<lparr>e_properties = Map.empty, e_globals = ss\<rparr>\<rparr>"


definition two_vertices :: "(nat, nat) ClusterGraph" where
  "two_vertices =
     ClusterGraph [(1, plain_vertex 11), (2, plain_vertex 12)] [] [] Map.empty True False"

definition two_joined :: "(nat, nat) ClusterGraph" where
  "two_joined =
     ClusterGraph [(1, plain_vertex 11), (2, plain_vertex 12)]
       [plain_edge 1 1 2 [plain_single 11 12 13]] [] Map.empty True False"

definition example_sub :: "(nat, nat) ClusterGraph" where
  "example_sub =
     ClusterGraph [(1, plain_vertex 13), (2, plain_vertex 14)]
       [plain_edge 1 1 2 [plain_single 13 14 15, plain_single 13 14 16]] [] Map.empty False False"

definition example_root :: "(nat, nat) ClusterGraph" where
  "example_root =
     ClusterGraph [(1, plain_vertex 11), (2, plain_vertex 12), (3, plain_vertex 17)]
       [plain_edge 1 1 2 [plain_single 11 12 18]] [(3, example_sub)] Map.empty False False"


section \<open>Identifier generator: facts\<close>

lemma sint_add_of_nat:
  fixes c :: "32 word"
  assumes "- 2147483648 \<le> sint c + int k" and "sint c + int k \<le> 2147483647"
  shows "sint (c + of_nat k) = sint c + int k"
proof -
  have "c + of_nat k = word_of_int (sint c + int k)"
    by simp
  then have "sint (c + of_nat k) = signed_take_bit 31 (sint c + int k)"
    by (simp only: sint_sbintrunc') simp
  also have "\<dots> = sint c + int k"
    using assms by (intro signed_take_bit_int_eq_self) simp_all
  finally show ?thesis .
qed

lemma sint_range32:
  fixes c :: "32 word"
  shows "- 2147483648 \<le> sint c" and "sint c \<le> 2147483647"
  using sint_ge [of c] sint_lt [of c] by simp_all

lemma generate_n_Suc_snd:
  "snd (generate_n (Suc n) g) = snd (generate_n n (snd (generate g)))"
  by (simp split: prod.splits)

lemma generate_n_state:
  "snd (generate_n n g) = g\<lparr>counter := counter g + of_nat n\<rparr>"
proof (induction n arbitrary: g)
  case 0
  show ?case by simp
next
  case (Suc n)
  show ?case
    unfolding generate_n_Suc_snd Suc.IH
    by (simp add: generate_def add.assoc)
qed

lemma generate_n_ids:
  "fst (generate_n n g) = map (\<lambda>k. counter g + of_nat (Suc k)) [0..<n]"
proof (induction n arbitrary: g)
  case 0
  show ?case by simp
next
  case (Suc n)
  have "fst (generate_n (Suc n) g)
      = (counter g + 1) # fst (generate_n n (g\<lparr>counter := counter g + 1\<rparr>))"
    by (simp add: generate_def split: prod.splits)
  also have "\<dots> = (counter g + 1) # map (\<lambda>k. counter g + 1 + of_nat (Suc k)) [0..<n]"
    by (simp add: Suc.IH)
  also have "\<dots> = map (\<lambda>k. counter g + of_nat (Suc k)) [0..<Suc n]"
    by (simp add: upt_rec [of 0 "Suc n"] map_Suc_upt [symmetric] add.assoc del: upt_Suc)
  finally show ?case .
qed

lemma generate_n_sint:
  assumes "- 2147483648 \<le> sint (counter g)" and "sint (counter g) + int n \<le> 2147483647"
  shows "map sint (fst (generate_n n g)) = map (\<lambda>k. sint (counter g) + int (Suc k)) [0..<n]"
proof -
  have "sint (counter g + of_nat (Suc k)) = sint (counter g) + int (Suc k)" if "k < n" for k
    using that assms by (intro sint_add_of_nat) linarith+
  then show ?thesis
    by (simp add: generate_n_ids del: of_nat_Suc)
qed

lemma sorted_wrt_affine:
  "sorted_wrt (<) (map (\<lambda>k. (c::int) + int (Suc k)) [0..<n])"
  by (simp add: sorted_wrt_map sorted_wrt_iff_nth_less)

text \<open>
  The generator of a tree: the root is created with a new generator, whose counter is
  10, and a cluster created with a parent takes the generator of the parent.
\<close>

lemma ClusterGraph_root_generator:
  "fst (ClusterGraph_root cm :: IDgen \<times> ('p, 'o) ClusterGraph) = IDgen_default"
  by (simp add: ClusterGraph_root_def)

lemma ClusterGraph_child_generator:
  "fst (ClusterGraph_child (Some m_id) cm :: IDgen \<times> ('p, 'o) ClusterGraph) = m_id"
  by (simp add: ClusterGraph_child_def)

text \<open>
  Claim C1, as amended. Take a generator whose counter is at least 9: the generator a
  cluster tree is created with (counter 10), or that generator after any number of
  \<open>generate()\<close> calls. The next \<open>n\<close> calls of \<open>generate()\<close>, with no \<open>setCount\<close> among
  them and with the counter staying within \<^verbatim>\<open>int\<close> (counter + \<open>n\<close> at most 2147483647),
  return identifiers that are each greater than 9 and each greater than all returned
  before: the list of returned values, read as signed integers, is strictly increasing.
\<close>

theorem generate_increasing_above_reserved:
  assumes "9 \<le> sint (counter g)" and "sint (counter g) + int n \<le> 2147483647"
  shows "sorted_wrt (<) (map sint (fst (generate_n n g)))
       \<and> (\<forall>i \<in> set (fst (generate_n n g)). 9 < sint i)"
proof -
  have ids: "map sint (fst (generate_n n g)) = map (\<lambda>k. sint (counter g) + int (Suc k)) [0..<n]"
    using assms by (intro generate_n_sint) simp_all
  have "sorted_wrt (<) (map sint (fst (generate_n n g)))"
    unfolding ids by (rule sorted_wrt_affine)
  moreover have "\<forall>x \<in> set (map sint (fst (generate_n n g))). 9 < x"
    unfolding ids using assms(1) by auto
  ultimately show ?thesis by simp
qed

theorem generate_increasing_above_reserved_witness:
  "9 \<le> sint (counter IDgen_default)
   \<and> sint (counter IDgen_default) + int 3 \<le> 2147483647
   \<and> sorted_wrt (<) (map sint (fst (generate_n 3 IDgen_default)))
   \<and> list_all (\<lambda>i. 9 < sint i) (fst (generate_n 3 IDgen_default))
   \<and> map sint (fst (generate_n 3 IDgen_default)) = [11, 12, 13]"
  using generate_increasing_above_reserved [of IDgen_default 3]
  by (simp add: numeral_3_eq_3 generate_def IDgen_default_def)

text \<open>
  Claim C1 as stated fails: after 2147483637 calls on the generator of a cluster tree
  the counter holds the largest \<^verbatim>\<open>int\<close>, and the next \<open>generate()\<close> returns
  -2147483648, which is not greater than 9 and is smaller than the first identifier
  the generator returned.
\<close>

theorem generate_wraps_counterexample:
  "\<not> 9 < sint (fst (generate (snd (generate_n 2147483637 IDgen_default))))
   \<and> sint (fst (generate (snd (generate_n 2147483637 IDgen_default))))
       < sint (fst (generate IDgen_default))"
  by (simp add: generate_n_state generate_def IDgen_default_def)

text \<open>
  Claim C2. Two global edges are equal (\<open>operator==\<close>) exactly when their \<open>ID\<close>s are
  equal; replacing \<open>source\<close> and \<open>target\<close> on either side changes nothing; \<open>operator!=\<close>
  is the negation; and \<open>valid()\<close> holds exactly when the \<open>ID\<close>, read as a signed integer,
  is greater than 9.
\<close>

theorem GlobalEdge_eq_by_ID:
  "(GlobalEdge_eq a b \<longleftrightarrow> ID a = ID b)
   \<and> GlobalEdge_eq (a\<lparr>source := s, target := t\<rparr>) (b\<lparr>source := s', target := t'\<rparr>)
       = GlobalEdge_eq a b
   \<and> (GlobalEdge_neq a b \<longleftrightarrow> \<not> GlobalEdge_eq a b)
   \<and> (valid e \<longleftrightarrow> 9 < sint (ID e))"
  by (simp add: GlobalEdge_eq_def GlobalEdge_neq_def valid_def word_sless_alt)

text \<open>
  Claim C3, as amended. Right after a \<open>generate()\<close> call, and after any positive number
  of \<open>generate()\<close> calls in a row, \<open>count()\<close> returns the value the last of them
  returned. (Nothing is said of a generator on which \<open>setCount\<close> was called after the
  last \<open>generate()\<close>, or on which \<open>generate()\<close> was never called.)
\<close>

theorem count_after_generate:
  "count (snd (generate_n (Suc n) g)) = last (fst (generate_n (Suc n) g))
   \<and> count (snd (generate g)) = fst (generate g)"
  by (simp add: generate_n_state generate_n_ids count_def generate_def
        del: generate_n.simps upt_Suc of_nat_Suc)
    (simp add: last_map)

text \<open>
  Claim C3 as stated fails: on a fresh generator \<open>generate()\<close> returns 11; after
  \<open>setCount(5)\<close> the most recent \<open>generate()\<close> call is still that one, and \<open>count()\<close>
  returns 5.
\<close>

theorem count_after_setCount_counterexample:
  "count (setCount (snd (generate IDgen_default)) 5) \<noteq> fst (generate IDgen_default)"
  by (simp add: count_def setCount_def generate_def IDgen_default_def)

text \<open>
  Claim C4, as amended. After \<open>setCount(n)\<close>, the next \<open>k\<close> calls of \<open>generate()\<close> (no
  other \<open>setCount\<close> among them) each return an identifier greater than \<open>n\<close>, provided
  \<open>n + k\<close> does not exceed the largest \<^verbatim>\<open>int\<close>, 2147483647.
\<close>

theorem setCount_then_generate_above:
  assumes "sint n + int k \<le> 2147483647"
  shows "\<forall>i \<in> set (fst (generate_n k (setCount g n))). sint n < sint i"
proof -
  have "map sint (fst (generate_n k (setCount g n))) = map (\<lambda>j. sint n + int (Suc j)) [0..<k]"
    using assms sint_range32 [of n] generate_n_sint [of "setCount g n" k]
    by (simp add: setCount_def)
  then have "set (map sint (fst (generate_n k (setCount g n))))
      = (\<lambda>j. sint n + int (Suc j)) ` {0..<k}"
    by simp
  then have "\<forall>x \<in> set (map sint (fst (generate_n k (setCount g n)))). sint n < x"
    by auto
  then show ?thesis by simp
qed

theorem setCount_then_generate_above_witness:
  "sint (100 :: universalID) + int 2 \<le> 2147483647
   \<and> list_all (\<lambda>i. sint (100 :: universalID) < sint i)
        (fst (generate_n 2 (setCount IDgen_default 100)))
   \<and> fst (generate_n 2 (setCount IDgen_default 100)) = [101, 102]"
  using setCount_then_generate_above [where n = 100 and k = 2 and g = IDgen_default]
  by (simp add: numeral_2_eq_2 generate_def setCount_def IDgen_default_def)

text \<open>
  Claim C4 as stated fails for \<open>n\<close> the largest \<^verbatim>\<open>int\<close>: after \<open>setCount(2147483647)\<close>
  the next \<open>generate()\<close> returns -2147483648, which is not greater than \<open>n\<close>.
\<close>

theorem setCount_max_counterexample:
  "\<not> sint (2147483647 :: universalID)
      < sint (fst (generate (setCount IDgen_default 2147483647)))"
  by (simp add: generate_def setCount_def)

text \<open>
  Claim C10. \<open>setCount(n)\<close> stores \<open>n\<close> whatever the counter held: \<open>count()\<close> returns \<open>n\<close>
  afterwards. When \<open>n\<close> is below the current counter, \<open>count()\<close> has decreased and the
  next \<open>generate()\<close> returns \<open>n + 1\<close>. That identifier can be one the generator issued
  before: a fresh generator issues 11, 12, 13; after \<open>setCount(11)\<close> it issues 12 again.
\<close>

theorem setCount_unconditional:
  "count (setCount g n) = n
   \<and> (n <s count g \<longrightarrow>
        count (setCount g n) <s count g
        \<and> fst (generate (setCount g n)) = n + 1
        \<and> sint (fst (generate (setCount g n))) = sint n + 1)
   \<and> fst (generate (setCount (snd (generate_n 3 IDgen_default)) 11))
        \<in> set (fst (generate_n 3 IDgen_default))"
proof -
  have a: "count (setCount g n) = n"
    by (simp add: count_def setCount_def)
  have b: "sint (fst (generate (setCount g n))) = sint n + 1" if "n <s count g"
  proof -
    have "sint n < sint (count g)"
      using that by (simp add: word_sless_alt)
    then have "sint n + int 1 \<le> 2147483647"
      using sint_range32 [of "count g"] by simp
    then have "sint (n + of_nat 1) = sint n + int 1"
      using sint_range32 [of n] by (intro sint_add_of_nat) simp_all
    then show ?thesis
      by (simp add: generate_def setCount_def)
  qed
  have c: "fst (generate (setCount (snd (generate_n 3 IDgen_default)) 11))
        \<in> set (fst (generate_n 3 IDgen_default))"
    by (simp add: numeral_3_eq_3 generate_def setCount_def IDgen_default_def)
  show ?thesis
    using a b c by (simp add: generate_def setCount_def)
qed

theorem setCount_unconditional_witness:
  "(11 :: universalID) <s count (snd (generate_n 3 IDgen_default))
   \<and> count (setCount (snd (generate_n 3 IDgen_default)) 11) = 11
   \<and> count (snd (generate_n 3 IDgen_default)) = 13
   \<and> fst (generate (setCount (snd (generate_n 3 IDgen_default)) 11)) = 12
   \<and> fst (generate_n 3 IDgen_default) = [11, 12, 13]"
  using setCount_unconditional [where n = 11 and g = "snd (generate_n 3 IDgen_default)"]
  by (simp add: numeral_3_eq_3 count_def generate_def setCount_def IDgen_default_def)

section \<open>Cluster graph: facts\<close>

lemma find_append_not: "find P xs = None \<Longrightarrow> find P (xs @ ys) = find P ys"
  by (induction xs) (auto split: if_splits)

lemma find_append_Some: "find P xs = Some x \<Longrightarrow> find P (xs @ ys) = Some x"
  by (induction xs) (auto split: if_splits)

lemma vertices_setChanged [simp]: "vertices (setChanged c) = vertices c"
  by (cases c) simp
lemma edges_setChanged [simp]: "edges (setChanged c) = edges c"
  by (cases c) simp
lemma m_clusters_setChanged [simp]: "m_clusters (setChanged c) = m_clusters c"
  by (cases c) simp



lemma fold_max_ge: "x \<in> set xs \<Longrightarrow> x \<le> fold max xs (a::nat)"
proof (induction xs arbitrary: a)
  case Nil then show ?case by simp
next
  case (Cons y ys)
  have mono: "b \<le> fold max ys (b::nat)" for b
    by (induction ys arbitrary: b) (auto intro: order_trans [OF max.cobounded2])
  show ?case
  proof (cases "x = y")
    case True
    then show ?thesis using mono [of "max y a"] by simp
  next
    case False
    then show ?thesis using Cons by simp
  qed
qed

lemma new_descriptor_fresh: "new_descriptor xs \<notin> set xs"
  using fold_max_ge [of "new_descriptor xs" xs 0] by (auto simp: new_descriptor_def)

lemma edge_None: "\<not> snd (edge c a b) \<longleftrightarrow> find (\<lambda>e. connects e a b) (edges c) = None"
  by (simp add: edge_def split: option.splits)




text \<open>
  Claim C6, as amended. Let \<open>a\<close> and \<open>b\<close> be distinct vertices of one cluster, neither of
  them a cluster, with no local edge between them. Two calls of \<open>addEdge(a,b)\<close> in a row
  both succeed and return the same local edge; afterwards exactly one local edge joins
  \<open>a\<close> and \<open>b\<close>, its aggregated list holds the two global edges returned, in that order,
  their \<open>ID\<close>s differ, and \<open>getGlobalEdgeCount\<close> of that local edge is 2.
\<close>

theorem addEdge_twice:
  assumes ab: "a \<noteq> b" "is_vertex c a" "is_vertex c b" "\<not> isCluster c a" "\<not> isCluster c b"
      and unconnected: "\<not> snd (edge c a b)"
      and first: "addEdge m_id c a b = ((e1, g1, ok1), m1, c1)"
      and second: "addEdge m1 c1 a b = ((e2, g2, ok2), m2, c2)"
  shows "ok1 \<and> ok2 \<and> e2 = e1
       \<and> (\<exists>x. filter (\<lambda>e. connects e a b) (edges c2) = [x]
              \<and> le_descriptor x = e1
              \<and> map s_global (e_globals (le_bundle x)) = [g1, g2])
       \<and> ID g1 \<noteq> ID g2
       \<and> getGlobalEdgeCount c2 e1 = 2"
proof -
  obtain vs es cs ps ch cm where c: "c = ClusterGraph vs es cs ps ch cm"
    by (cases c)
  have none: "find (\<lambda>e. connects e a b) es = None"
    using unconnected by (simp add: edge_None c)
  then have nofilter: "filter (\<lambda>e. connects e a b) es = []"
    by (simp add: find_None_iff filter_empty_conv)
  define i1 where "i1 = counter m_id + 1"
  define s1 :: "'b edge_bundle_single" where
    "s1 = \<lparr>s_objects = Map.empty,
           s_global = \<lparr>source = getGlobalVertex c a, target = getGlobalVertex c b, ID = i1\<rparr>\<rparr>"
  define E1 :: "('a, 'b) local_edge" where
    "E1 = \<lparr>le_descriptor = new_descriptor (map le_descriptor es), le_source = a, le_target = b,
           le_bundle = \<lparr>e_properties = Map.empty, e_globals = [s1]\<rparr>\<rparr>"
  have r1: "e1 = le_descriptor E1" "g1 = s_global s1" "ok1" "m1 = m_id\<lparr>counter := i1\<rparr>"
    "c1 = setChanged (ClusterGraph vs (es @ [E1]) cs ps ch cm)"
    using first ab none
    by (auto simp: addEdge_def generate_def edge_def c Let_def i1_def s1_def E1_def)
  have v1: "is_vertex c1 a" "is_vertex c1 b" "\<not> isCluster c1 a" "\<not> isCluster c1 b"
    using ab by (simp_all add: r1 is_vertex_def isCluster_def c)
  have conn: "connects E1 a b"
    by (simp add: connects_def E1_def)
  have found: "edge c1 a b = (le_descriptor E1, True)"
    using none conn by (simp add: edge_def r1 find_append_not)
  define s2 :: "'b edge_bundle_single" where
    "s2 = \<lparr>s_objects = Map.empty,
           s_global = \<lparr>source = getGlobalVertex c1 a, target = getGlobalVertex c1 b, ID = i1 + 1\<rparr>\<rparr>"
  have "le_descriptor E1 \<notin> le_descriptor ` set es"
    using new_descriptor_fresh [of "map le_descriptor es"] by (simp add: E1_def)
  then have fresh: "\<forall>x \<in> set es. le_descriptor x \<noteq> le_descriptor E1"
    by (metis imageI)
  then have keep: "map (\<lambda>x. if le_descriptor x = le_descriptor E1 then push_back_global s2 x else x) es = es"
    by (induction es) auto
  have r2: "e2 = le_descriptor E1" "g2 = s_global s2" "ok2"
    "c2 = setChanged (aggregate_global (le_descriptor E1) s2 c1)"
    using second ab v1 found
    by (auto simp: addEdge_def generate_def Let_def s2_def r1)
  have edges2: "edges c2 = es @ [push_back_global s2 E1]"
    by (simp add: r2 r1 keep split: if_splits)
  have conn2: "connects (push_back_global s2 E1) a b"
    using conn by (simp add: connects_def push_back_global_def)
  have f: "filter (\<lambda>e. connects e a b) (edges c2) = [push_back_global s2 E1]"
    by (simp add: edges2 nofilter conn2)
  have d: "le_descriptor (push_back_global s2 E1) = e1"
    by (simp add: push_back_global_def r1)
  have gl: "map s_global (e_globals (le_bundle (push_back_global s2 E1))) = [g1, g2]"
    by (simp add: push_back_global_def E1_def r1 r2)
  have "find (\<lambda>x. le_descriptor x = e1) es = None"
    using fresh by (auto simp: find_None_iff r1)
  then have cnt: "getGlobalEdgeCount c2 e1 = 2"
    by (simp add: getGlobalEdgeCount_def edges2 find_append_not d)
      (simp add: push_back_global_def E1_def)
  have ne: "ID g1 \<noteq> ID g2"
    by (simp add: r1 r2 s1_def s2_def)
  show ?thesis
    using r1(3) r2(1,3) r1(1) f d gl ne cnt by simp
qed

theorem addEdge_twice_witness:
  "(1::nat) \<noteq> 2 \<and> is_vertex two_vertices 1 \<and> is_vertex two_vertices 2
   \<and> \<not> isCluster two_vertices 1 \<and> \<not> isCluster two_vertices 2
   \<and> \<not> snd (edge two_vertices 1 2)
   \<and> addEdge \<lparr>counter = 12\<rparr> two_vertices 1 2
       = ((1, \<lparr>source = 11, target = 12, ID = 13\<rparr>, True), \<lparr>counter = 13\<rparr>, two_joined)
   \<and> addEdge \<lparr>counter = 13\<rparr> two_joined 1 2
       = ((1, \<lparr>source = 11, target = 12, ID = 14\<rparr>, True), \<lparr>counter = 14\<rparr>,
          ClusterGraph [(1, plain_vertex 11), (2, plain_vertex 12)]
            [plain_edge 1 1 2 [plain_single 11 12 13, plain_single 11 12 14]] []
            Map.empty True False)
   \<and> getGlobalEdgeCount
        (ClusterGraph [(1, plain_vertex 11), (2, plain_vertex 12)]
           [plain_edge 1 1 2 [plain_single 11 12 13, plain_single 11 12 14]] []
           Map.empty True False) 1 = 2"
  using addEdge_twice [where a = 1 and b = 2 and c = two_vertices and m_id = "\<lparr>counter = 12\<rparr>"
      and ?e1.0 = 1 and ?ok1.0 = True and ?m1.0 = "\<lparr>counter = 13\<rparr>" and ?c1.0 = two_joined
      and ?e2.0 = 1 and ?ok2.0 = True and ?m2.0 = "\<lparr>counter = 14\<rparr>"
      and ?g1.0 = "\<lparr>source = 11, target = 12, ID = 13\<rparr>"
      and ?g2.0 = "\<lparr>source = 11, target = 12, ID = 14\<rparr>"
      and ?c2.0 = "ClusterGraph [(1, plain_vertex 11), (2, plain_vertex 12)]
            [plain_edge 1 1 2 [plain_single 11 12 13, plain_single 11 12 14]] []
            Map.empty True False"]
  by (simp add: addEdge_def generate_def two_vertices_def two_joined_def plain_vertex_def
      plain_edge_def plain_single_def new_descriptor_def is_vertex_def isCluster_def edge_def
      connects_def getGlobalVertex_def push_back_global_def getGlobalEdgeCount_def Let_def)

text \<open>
  Claim C6 as stated fails when a local edge already joins the two vertices. In the
  cluster of two vertices joined by a local edge that holds one global edge (the state
  one \<open>addEdge(1,2)\<close> leaves), two calls of \<open>addEdge(1,2)\<close> in a row leave that local
  edge with three global edges, and \<open>getGlobalEdgeCount\<close> returns 3.
\<close>

theorem addEdge_twice_joined_counterexample:
  "snd (snd (addEdge \<lparr>counter = 12\<rparr> two_vertices 1 2)) = two_joined
   \<and> getGlobalEdgeCount
        (snd (snd (addEdge \<lparr>counter = 14\<rparr>
           (snd (snd (addEdge \<lparr>counter = 13\<rparr> two_joined 1 2))) 1 2))) 1 = 3
   \<and> getGlobalEdgeCount
        (snd (snd (addEdge \<lparr>counter = 14\<rparr>
           (snd (snd (addEdge \<lparr>counter = 13\<rparr> two_joined 1 2))) 1 2))) 1 \<noteq> 2"
  by (simp add: addEdge_def generate_def two_vertices_def two_joined_def plain_vertex_def
      plain_edge_def plain_single_def new_descriptor_def is_vertex_def isCluster_def edge_def
      connects_def getGlobalVertex_def push_back_global_def getGlobalEdgeCount_def Let_def)

lemma remove_first_split:
  "list_ex P xs \<Longrightarrow> \<exists>ys s zs. xs = ys @ s # zs \<and> P s \<and> \<not> list_ex P ys \<and> remove_first P xs = ys @ zs"
proof (induction xs)
  case Nil
  then show ?case by simp
next
  case (Cons x xs)
  show ?case
  proof (cases "P x")
    case True
    then have "x # xs = [] @ x # xs \<and> P x \<and> \<not> list_ex P [] \<and> remove_first P (x # xs) = [] @ xs"
      by simp
    then show ?thesis by blast
  next
    case False
    with Cons.prems have "list_ex P xs" by simp
    from Cons.IH [OF this] obtain ys s zs where
      "xs = ys @ s # zs" "P s" "\<not> list_ex P ys" "remove_first P xs = ys @ zs"
      by blast
    with False have "x # xs = (x # ys) @ s # zs \<and> P s \<and> \<not> list_ex P (x # ys)
        \<and> remove_first P (x # xs) = (x # ys) @ zs"
      by simp
    then show ?thesis by blast
  qed
qed

lemma one_entry_dropped_own:
  assumes "list_ex (\<lambda>e. holds_global e g) es"
  shows "one_entry_dropped g (map (Pair t) es) (map (Pair t) (drop_global g es))"
  using assms
proof (induction es)
  case Nil
  then show ?case by simp
next
  case (Cons e es)
  show ?case
  proof (cases "holds_global e g")
    case True
    then obtain ys s zs where split: "e_globals (le_bundle e) = ys @ s # zs"
      "GlobalEdge_eq (s_global s) g" "\<not> list_ex (\<lambda>s. GlobalEdge_eq (s_global s) g) ys"
      "remove_first (\<lambda>s. GlobalEdge_eq (s_global s) g) (e_globals (le_bundle e)) = ys @ zs"
      using remove_first_split [of "\<lambda>s. GlobalEdge_eq (s_global s) g" "e_globals (le_bundle e)"]
      unfolding holds_global_def by blast
    have "map (Pair t) (drop_global g (e # es))
        = (if ys @ zs = [] then [] @ map (Pair t) es
           else [] @ (t, set_globals (ys @ zs) e) # map (Pair t) es)"
      using True split(4) by (simp add: Let_def)
    moreover have "map (Pair t) (e # es) = [] @ (t, e) # map (Pair t) es"
      by simp
    moreover have "\<not> list_ex (\<lambda>(p, e). holds_global e g) []"
      by simp
    ultimately show ?thesis
      unfolding one_entry_dropped_def using split(1-3) by blast
  next
    case False
    with Cons.prems have "list_ex (\<lambda>e. holds_global e g) es" by simp
    from Cons.IH [OF this] obtain pre p x post ys s zs where
      h: "map (Pair t) es = pre @ (p, x) # post"
        "\<not> list_ex (\<lambda>(p, e). holds_global e g) pre"
        "e_globals (le_bundle x) = ys @ s # zs"
        "GlobalEdge_eq (s_global s) g"
        "\<not> list_ex (\<lambda>s. GlobalEdge_eq (s_global s) g) ys"
        "map (Pair t) (drop_global g es)
           = (if ys @ zs = [] then pre @ post else pre @ (p, set_globals (ys @ zs) x) # post)"
      unfolding one_entry_dropped_def by blast
    have "map (Pair t) (e # es) = ((t, e) # pre) @ (p, x) # post"
      using h(1) by simp
    moreover have "\<not> list_ex (\<lambda>(p, e). holds_global e g) ((t, e) # pre)"
      using False h(2) by simp
    moreover have "map (Pair t) (drop_global g (e # es))
        = (if ys @ zs = [] then ((t, e) # pre) @ post
           else ((t, e) # pre) @ (p, set_globals (ys @ zs) x) # post)"
      using False h(6) by simp
    ultimately show ?thesis
      unfolding one_entry_dropped_def using h(3-5) by blast
  qed
qed


lemma one_entry_dropped_prefix:
  assumes "\<not> list_ex (\<lambda>(p, e). holds_global e g) l" and "one_entry_dropped g b a"
  shows "one_entry_dropped g (l @ b) (l @ a)"
proof -
  from assms(2) obtain pre p e post ys s zs where
    h: "b = pre @ (p, e) # post"
      "\<not> list_ex (\<lambda>(p, e). holds_global e g) pre"
      "e_globals (le_bundle e) = ys @ s # zs"
      "GlobalEdge_eq (s_global s) g"
      "\<not> list_ex (\<lambda>s. GlobalEdge_eq (s_global s) g) ys"
      "a = (if ys @ zs = [] then pre @ post else pre @ (p, set_globals (ys @ zs) e) # post)"
    unfolding one_entry_dropped_def by blast
  have "l @ b = (l @ pre) @ (p, e) # post"
    using h(1) by simp
  moreover have "\<not> list_ex (\<lambda>(p, e). holds_global e g) (l @ pre)"
    using assms(1) h(2) by (auto simp: list_ex_iff)
  moreover have "l @ a = (if ys @ zs = [] then (l @ pre) @ post
                         else (l @ pre) @ (p, set_globals (ys @ zs) e) # post)"
    using h(6) by simp
  ultimately show ?thesis
    unfolding one_entry_dropped_def using h(3-5) by blast
qed

lemma one_entry_dropped_suffix:
  assumes "one_entry_dropped g b a"
  shows "one_entry_dropped g (b @ r) (a @ r)"
proof -
  from assms obtain pre p e post ys s zs where
    h: "b = pre @ (p, e) # post"
      "\<not> list_ex (\<lambda>(p, e). holds_global e g) pre"
      "e_globals (le_bundle e) = ys @ s # zs"
      "GlobalEdge_eq (s_global s) g"
      "\<not> list_ex (\<lambda>s. GlobalEdge_eq (s_global s) g) ys"
      "a = (if ys @ zs = [] then pre @ post else pre @ (p, set_globals (ys @ zs) e) # post)"
    unfolding one_entry_dropped_def by blast
  have "b @ r = pre @ (p, e) # (post @ r)"
    using h(1) by simp
  moreover have "a @ r = (if ys @ zs = [] then pre @ (post @ r)
                         else pre @ (p, set_globals (ys @ zs) e) # (post @ r))"
    using h(6) by simp
  ultimately show ?thesis
    unfolding one_entry_dropped_def using h(2-5) by blast
qed

lemma list_ex_below:
  "list_ex (\<lambda>(p, e). holds_global e g) (below cv xs) = list_ex (\<lambda>(p, e). holds_global e g) xs"
  by (induction xs) (auto simp: below_def)

lemma one_entry_dropped_below:
  assumes "one_entry_dropped g b a"
  shows "one_entry_dropped g (below cv b) (below cv a)"
proof -
  from assms obtain pre p e post ys s zs where
    h: "b = pre @ (p, e) # post"
      "\<not> list_ex (\<lambda>(p, e). holds_global e g) pre"
      "e_globals (le_bundle e) = ys @ s # zs"
      "GlobalEdge_eq (s_global s) g"
      "\<not> list_ex (\<lambda>s. GlobalEdge_eq (s_global s) g) ys"
      "a = (if ys @ zs = [] then pre @ post else pre @ (p, set_globals (ys @ zs) e) # post)"
    unfolding one_entry_dropped_def by blast
  have "below cv b = below cv pre @ (cv # p, e) # below cv post"
    using h(1) by (simp add: below_def)
  moreover have "\<not> list_ex (\<lambda>(p, e). holds_global e g) (below cv pre)"
    using h(2) by (simp add: list_ex_below)
  moreover have "below cv a = (if ys @ zs = [] then below cv pre @ below cv post
        else below cv pre @ (cv # p, set_globals (ys @ zs) e) # below cv post)"
    using h(6) by (simp add: below_def)
  ultimately show ?thesis
    unfolding one_entry_dropped_def using h(3-5) by blast
qed

lemma edges_in_simps [simp]:
  "edges_in [] = []"
  "edges_in ((cv, sub) # cs) = below cv (all_edges sub) @ edges_in cs"
  by (simp_all add: edges_in_def)

lemma vertices_in_simps [simp]:
  "vertices_in [] = []"
  "vertices_in ((cv, sub) # cs) = below cv (all_vertices sub) @ vertices_in cs"
  by (simp_all add: vertices_in_def)

lemma all_edges_eq: "all_edges c = map (Pair []) (edges c) @ edges_in (m_clusters c)"
  by (cases c) (simp add: edges_in_def)

lemma all_vertices_eq: "all_vertices c = map (Pair []) (vertices c) @ vertices_in (m_clusters c)"
  by (cases c) (simp add: vertices_in_def)

lemma list_ex_own: "list_ex (\<lambda>(p, e). holds_global e g) (map (Pair t) es) = list_ex (\<lambda>e. holds_global e g) es"
  by (induction es) auto

lemma holds_in_tree_all_edges:
  "holds_in_tree c g = list_ex (\<lambda>(p, e). holds_global e g) (all_edges c)"
proof (induction c)
  case (ClusterGraph vs es cs ps ch cm)
  have "list_ex (\<lambda>(cv, sub). holds_in_tree sub g) cs
      = list_ex (\<lambda>(p, e). holds_global e g) (concat (map (\<lambda>(cv, sub). below cv (all_edges sub)) cs))"
    using ClusterGraph.IH
  proof (induction cs)
    case Nil
    show ?case by simp
  next
    case (Cons x xs)
    obtain cv sub where x: "x = (cv, sub)" by (cases x)
    have "holds_in_tree sub g = list_ex (\<lambda>(p, e). holds_global e g) (all_edges sub)"
      using Cons.prems [of x sub] by (simp add: x)
    moreover have "list_ex (\<lambda>(cv, sub). holds_in_tree sub g) xs
      = list_ex (\<lambda>(p, e). holds_global e g) (concat (map (\<lambda>(cv, sub). below cv (all_edges sub)) xs))"
      using Cons.prems by (intro Cons.IH) auto
    ultimately show ?case
      by (simp add: x list_ex_below list_ex_append)
  qed
  then show ?case
    by (simp add: list_ex_own list_ex_append)
qed

lemma holds_in_clusters:
  "list_ex (\<lambda>(cv, sub). holds_in_tree sub g) cs = list_ex (\<lambda>(p, e). holds_global e g) (edges_in cs)"
  by (induction cs) (auto simp: holds_in_tree_all_edges list_ex_below list_ex_append)

lemma remove_global_edge_all_edges:
  fixes c :: "('p, 'o) ClusterGraph" and cs :: "(LocalVertex \<times> ('p, 'o) ClusterGraph) list"
  shows "holds_in_tree c g \<Longrightarrow> one_entry_dropped g (all_edges c) (all_edges (remove_global_edge c g))"
    and "list_ex (\<lambda>(cv, sub). holds_in_tree sub g) cs
     \<Longrightarrow> one_entry_dropped g (edges_in cs) (edges_in (remove_in_clusters cs g))"
proof (induction c g and cs g rule: remove_global_edge_remove_in_clusters.induct)
  case (1 vs es cs ps ch cm g)
  show ?case
  proof (cases "list_ex (\<lambda>e. holds_global e g) es")
    case True
    then have "one_entry_dropped g (map (Pair []) es) (map (Pair []) (drop_global g es))"
      by (rule one_entry_dropped_own)
    then have "one_entry_dropped g (map (Pair []) es @ edges_in cs)
        (map (Pair []) (drop_global g es) @ edges_in cs)"
      by (rule one_entry_dropped_suffix)
    with True show ?thesis
      by (simp add: edges_in_def)
  next
    case False
    with "1.prems" have sub: "list_ex (\<lambda>(cv, sub). holds_in_tree sub g) cs"
      by simp
    have "one_entry_dropped g (edges_in cs) (edges_in (remove_in_clusters cs g))"
      using "1.IH" [OF False sub] .
    moreover have "\<not> list_ex (\<lambda>(p, e). holds_global e g) (map (Pair []) es)"
      using False by (simp add: list_ex_own)
    ultimately have "one_entry_dropped g (map (Pair []) es @ edges_in cs)
        (map (Pair []) es @ edges_in (remove_in_clusters cs g))"
      by (intro one_entry_dropped_prefix)
    with False show ?thesis
      by (simp add: edges_in_def)
  qed
next
  case (2 g)
  then show ?case by simp
next
  case (3 cv sub cs g)
  show ?case
  proof (cases "holds_in_tree sub g")
    case True
    have "one_entry_dropped g (all_edges sub) (all_edges (remove_global_edge sub g))"
      using "3.IH"(1) [OF True True] .
    then have "one_entry_dropped g (below cv (all_edges sub)) (below cv (all_edges (remove_global_edge sub g)))"
      by (rule one_entry_dropped_below)
    then have "one_entry_dropped g (below cv (all_edges sub) @ edges_in cs)
        (below cv (all_edges (remove_global_edge sub g)) @ edges_in cs)"
      by (rule one_entry_dropped_suffix)
    with True show ?thesis by simp
  next
    case False
    with "3.prems" have rest: "list_ex (\<lambda>(cv, sub). holds_in_tree sub g) cs"
      by simp
    have "one_entry_dropped g (edges_in cs) (edges_in (remove_in_clusters cs g))"
      using "3.IH"(2) [OF False rest] .
    moreover have "\<not> list_ex (\<lambda>(p, e). holds_global e g) (below cv (all_edges sub))"
      using False by (simp add: list_ex_below holds_in_tree_all_edges)
    ultimately have "one_entry_dropped g (below cv (all_edges sub) @ edges_in cs)
        (below cv (all_edges sub) @ edges_in (remove_in_clusters cs g))"
      by (intro one_entry_dropped_prefix)
    with False show ?thesis by simp
  qed
qed

lemma remove_global_edge_all_vertices:
  fixes c :: "('p, 'o) ClusterGraph" and cs :: "(LocalVertex \<times> ('p, 'o) ClusterGraph) list"
  shows "all_vertices (remove_global_edge c g) = all_vertices c"
    and "vertices_in (remove_in_clusters cs g) = vertices_in cs"
proof (induction c g and cs g rule: remove_global_edge_remove_in_clusters.induct)
  case (1 vs es cs ps ch cm g)
  then show ?case by (simp add: vertices_in_def)
next
  case (2 g)
  show ?case by simp
next
  case (3 cv sub cs g)
  then show ?case by simp
qed

lemma all_edges_setChanged [simp]: "all_edges (setChanged c) = all_edges c"
  by (cases c) simp

lemma all_vertices_setChanged [simp]: "all_vertices (setChanged c) = all_vertices c"
  by (cases c) simp

text \<open>
  Claim C7. Let some local edge of the cluster or of its subclusters hold the global edge
  \<open>g\<close>, and let \<open>e\<close>, in the cluster at path \<open>p\<close>, be the first such edge in the order of
  the search (the only one when identifiers are unique). \<open>removeEdge(g)\<close> removes from
  the aggregated list of \<open>e\<close> the entry \<open>s\<close> for \<open>g\<close> and no other: the entries \<open>ys\<close>
  before it and \<open>zs\<close> after it stay, in their order. The local edge \<open>e\<close> is removed
  exactly when no entry is left, that is when \<open>s\<close> was its only entry; otherwise it
  stays where it was, with its descriptor, its vertices and its properties. Every
  other local edge and every vertex of the subtree is as before.
\<close>

theorem removeEdge_drops_one_entry:
  assumes "list_ex (\<lambda>(p, e). holds_global e g) (all_edges c)"
  shows "\<exists>pre p e post ys s zs.
        all_edges c = pre @ (p, e) # post
      \<and> \<not> list_ex (\<lambda>(p, e). holds_global e g) pre
      \<and> e_globals (le_bundle e) = ys @ s # zs
      \<and> GlobalEdge_eq (s_global s) g
      \<and> \<not> list_ex (\<lambda>s. GlobalEdge_eq (s_global s) g) ys
      \<and> all_edges (removeEdge c g)
          = (if ys @ zs = [] then pre @ post else pre @ (p, set_globals (ys @ zs) e) # post)
      \<and> all_vertices (removeEdge c g) = all_vertices c"
proof -
  have h: "holds_in_tree c g"
    using assms by (simp add: holds_in_tree_all_edges)
  then have "one_entry_dropped g (all_edges c) (all_edges (removeEdge c g))"
    using remove_global_edge_all_edges(1) [of c g] by (simp add: removeEdge_def)
  moreover have "all_vertices (removeEdge c g) = all_vertices c"
    using h by (simp add: removeEdge_def remove_global_edge_all_vertices)
  ultimately show ?thesis
    unfolding one_entry_dropped_def by blast
qed

theorem removeEdge_drops_one_entry_witness:
  "list_ex (\<lambda>(p, e). holds_global e \<lparr>source = 13, target = 14, ID = 15\<rparr>) (all_edges example_root)
   \<and> all_edges example_root =
       [([], plain_edge 1 1 2 [plain_single 11 12 18]),
        ([3], plain_edge 1 1 2 [plain_single 13 14 15, plain_single 13 14 16])]
   \<and> all_edges (removeEdge example_root \<lparr>source = 13, target = 14, ID = 15\<rparr>) =
       [([], plain_edge 1 1 2 [plain_single 11 12 18]),
        ([3], plain_edge 1 1 2 [plain_single 13 14 16])]
   \<and> all_edges (removeEdge (removeEdge example_root \<lparr>source = 13, target = 14, ID = 15\<rparr>)
         \<lparr>source = 13, target = 14, ID = 16\<rparr>) =
       [([], plain_edge 1 1 2 [plain_single 11 12 18])]"
  using removeEdge_drops_one_entry [where c = example_root
      and g = "\<lparr>source = 13, target = 14, ID = 15\<rparr>"]
  by (simp add: example_root_def example_sub_def removeEdge_def below_def holds_global_def
      GlobalEdge_eq_def plain_edge_def plain_single_def set_globals_def)

text \<open>
  Claim C9. \<open>addEdge(a,a)\<close>, for any cluster, any generator and any local vertex \<open>a\<close>,
  returns \<open>false\<close> in its success slot and leaves the cluster (its vertices, edges,
  bundles, subclusters, properties and flags) and the counter of the generator as they
  were.
\<close>

theorem addEdge_self_fails:
  "snd (snd (fst (addEdge m_id c a a))) = False \<and> snd (addEdge m_id c a a) = (m_id, c)"
  by (simp add: addEdge_def)

theorem addEdge_self_fails_witness:
  "addEdge \<lparr>counter = 18\<rparr> example_root 1 1
     = ((null_descriptor, invalid_GlobalEdge, False), \<lparr>counter = 18\<rparr>, example_root)"
  using addEdge_self_fails [where m_id = "\<lparr>counter = 18\<rparr>" and c = example_root and a = 1]
  by (simp add: addEdge_def)

end
